theory Spec2Isabelle
  imports Main "HOL-Library.Multiset"
begin

section \<open>The document model of \<^verbatim>\<open>src/libs/svg.js\<close>\<close>

text \<open>
  \<^verbatim>\<open>var Svg = function(){ this.elements = []; };\<close>
  A document owns an ordered sequence of elements. The element type is left open
  wherever the code only hands elements on to their own methods.
\<close>

record 'e Svg =
  elements :: "'e list"

definition new_Svg :: "'e Svg" where
  "new_Svg = \<lparr>elements = []\<rparr>"

text \<open>\<^verbatim>\<open>Svg.prototype.setElements = function(elements){ this.elements = elements; }\<close>\<close>

definition setElements :: "'e list \<Rightarrow> 'e Svg \<Rightarrow> 'e Svg" where
  "setElements els svg = svg\<lparr>elements := els\<rparr>"

text \<open>\<^verbatim>\<open>Svg.prototype.addElement = function(element){ this.elements.push(element); }\<close>\<close>

definition addElement :: "'e \<Rightarrow> 'e Svg \<Rightarrow> 'e Svg" where
  "addElement element svg = svg\<lparr>elements := elements svg @ [element]\<rparr>"

text \<open>
  An optional boolean argument: \<open>None\<close> is JavaScript's \<^verbatim>\<open>undefined\<close>, which
  \<^verbatim>\<open>if(typeof matrix == 'undefined') matrix = false;\<close> turns into \<open>False\<close>.
\<close>

definition default_false :: "bool option \<Rightarrow> bool" where
  "default_false matrix = (case matrix of None \<Rightarrow> False | Some b \<Rightarrow> b)"

subsection \<open>Serialisation to JSON\<close>

record 'j DocumentJSON =
  json_elements :: "'j list"

text \<open>
  \<^verbatim>\<open>Svg.prototype.toJSON\<close> (lines 37-49). \<open>elem_toJSON\<close> is the element's own
  \<^verbatim>\<open>toJSON(matrix)\<close>; \<^verbatim>\<open>_.each\<close> visits the array in index order and the
  callback pushes onto \<^verbatim>\<open>json.elements\<close>.
\<close>

definition toJSON :: "('e \<Rightarrow> bool \<Rightarrow> 'j) \<Rightarrow> 'e Svg \<Rightarrow> bool option \<Rightarrow> 'j DocumentJSON" where
  "toJSON elem_toJSON svg matrix =
     (let m = default_false matrix in
      fold (\<lambda>element json. json\<lparr>json_elements := json_elements json @ [elem_toJSON element m]\<rparr>)
           (elements svg) \<lparr>json_elements = []\<rparr>)"

subsection \<open>Serialisation to XML\<close>

text \<open>
  The tag tree that the xmlbuilder library builds: \<^verbatim>\<open>create\<close> makes a node,
  \<^verbatim>\<open>att\<close> appends an attribute, \<^verbatim>\<open>importXMLBuilder\<close> appends a child.
  The library's serialiser (\<^verbatim>\<open>toString\<close> of a node) is a parameter
  \<open>xml_toString\<close> of the functions below.
\<close>

datatype XMLNode = XMLNode (tag: string) (attributes: "(string \<times> string) list") (children: "XMLNode list")

definition create :: "string \<Rightarrow> XMLNode" where
  "create name = XMLNode name [] []"

definition att :: "string \<Rightarrow> string \<Rightarrow> XMLNode \<Rightarrow> XMLNode" where
  "att name v xml = XMLNode (tag xml) (attributes xml @ [(name, v)]) (children xml)"

definition importXMLBuilder :: "XMLNode \<Rightarrow> XMLNode \<Rightarrow> XMLNode" where
  "importXMLBuilder child xml = XMLNode (tag xml) (attributes xml) (children xml @ [child])"

text \<open>\<^verbatim>\<open>Svg.prototype.toXml\<close> (lines 56-68).\<close>

definition toXml :: "('e \<Rightarrow> bool \<Rightarrow> XMLNode) \<Rightarrow> 'e Svg \<Rightarrow> bool option \<Rightarrow> XMLNode" where
  "toXml elem_toXml svg matrix =
     (let m = default_false matrix;
          xml = create ''svg'';
          xml = att ''version'' ''1.1'' xml;
          xml = att ''xmlns'' ''http://www.w3.org/2000/svg'' xml
      in fold (\<lambda>element xml. importXMLBuilder (elem_toXml element m) xml) (elements svg) xml)"

text \<open>
  \<^verbatim>\<open>Svg.prototype.toString\<close> (lines 77-89). \<open>content\<close> is the documented boolean;
  \<^verbatim>\<open>content == true\<close> is then the test of that boolean.
\<close>

definition toString :: "(XMLNode \<Rightarrow> string) \<Rightarrow> ('e \<Rightarrow> bool \<Rightarrow> XMLNode) \<Rightarrow> 'e Svg \<Rightarrow> bool \<Rightarrow> bool option \<Rightarrow> string" where
  "toString xml_toString elem_toXml svg content matrix =
     (let m = default_false matrix in
      if content then xml_toString (toXml elem_toXml svg matrix)
      else fold (\<lambda>element string. string @ xml_toString (elem_toXml element m)) (elements svg) [])"

section \<open>Shape elements and the two lookups\<close>

text \<open>
  What \<^verbatim>\<open>svg.js\<close> reads of an element: its \<^verbatim>\<open>type\<close>, its optional
  \<^verbatim>\<open>id\<close> (\<open>None\<close> when the attribute is absent) and, of a group, its
  \<^verbatim>\<open>childs\<close>. Everything else an element carries is the payload \<open>geometry\<close>.
\<close>

datatype 'a Element =
  Element (elem_type: string) (elem_id: "string option") (geometry: 'a) (childs: "'a Element list")

text \<open>
  \<^verbatim>\<open>Svg.prototype.findByType\<close> (lines 98-114). \<open>group_findByType\<close> is the method
  \<^verbatim>\<open>elem.findByType(type, all)\<close> of a group element; the code reads the
  \<^verbatim>\<open>childs\<close> of the group it returns.
\<close>

definition findByType ::
  "('a Element \<Rightarrow> string \<Rightarrow> bool \<Rightarrow> 'a Element) \<Rightarrow> 'a Element Svg \<Rightarrow> string \<Rightarrow> bool \<Rightarrow> 'a Element Svg" where
  "findByType group_findByType this type all =
     fold (\<lambda>elem svg.
             let svg = (if elem_type elem = type then addElement elem svg else svg) in
             if all \<and> elem_type elem = ''g'' then
               let group = group_findByType elem type all in
               fold (\<lambda>child svg. addElement child svg) (childs group) svg
             else svg)
          (elements this) new_Svg"

text \<open>
  \<^verbatim>\<open>Svg.prototype.findById\<close> (lines 122-134). \<open>None\<close> is \<^verbatim>\<open>null\<close>;
  \<open>group_findById\<close> is the method \<^verbatim>\<open>elem.findById(id)\<close> of a group element.
  \<^verbatim>\<open>_.each\<close> cannot be left early, so every element is visited and each visit of
  a match or of a group assigns \<^verbatim>\<open>returnElem\<close>.
\<close>

definition findById ::
  "('a Element \<Rightarrow> string \<Rightarrow> 'a Element option) \<Rightarrow> 'a Element Svg \<Rightarrow> string \<Rightarrow> 'a Element option" where
  "findById group_findById this id' =
     fold (\<lambda>elem returnElem.
             if elem_id elem = Some id' then Some elem
             else if elem_type elem = ''g'' then group_findById elem id'
             else returnElem)
          (elements this) None"

text \<open>
  Modelled from the spec: \<^verbatim>\<open>findByType\<close> of the group element (the group's
  file is not among the sources). The spec has the search descend into every
  \<^verbatim>\<open>g\<close> element recursively and collect the matches found inside; the group
  returned owns the matches as its \<^verbatim>\<open>childs\<close>. The traversal of the document
  above is repeated over the group's own \<^verbatim>\<open>childs\<close>.
\<close>

fun Group_findByType :: "'a Element \<Rightarrow> string \<Rightarrow> bool \<Rightarrow> 'a Element" where
  "Group_findByType (Element t i g cs) type all =
     Element t i g
       (fold (\<lambda>elem acc.
                let acc = (if elem_type elem = type then acc @ [elem] else acc) in
                if all \<and> elem_type elem = ''g'' then acc @ childs (Group_findByType elem type all)
                else acc)
             cs [])"

text \<open>
  Modelled from the spec: \<^verbatim>\<open>findById\<close> of the group element (not among the
  sources either). The spec asks a group to search recursively and to yield the
  element with the id at any depth, or \<^verbatim>\<open>null\<close>: a depth-first search over
  the group's \<^verbatim>\<open>childs\<close> that keeps the first match.
\<close>

fun Group_findById :: "'a Element \<Rightarrow> string \<Rightarrow> 'a Element option" where
  "Group_findById (Element t i g cs) id' =
     fold (\<lambda>elem found.
             case found of
               Some e \<Rightarrow> Some e
             | None \<Rightarrow>
                 if elem_id elem = Some id' then Some elem
                 else if elem_type elem = ''g'' then Group_findById elem id'
                 else None)
          cs None"

text \<open>All elements of a tree, each before its descendants, and the ids they carry.\<close>

fun subtree :: "'a Element \<Rightarrow> 'a Element list" where
  "subtree (Element t i g cs) = Element t i g cs # concat (map subtree cs)"

definition all_ids :: "'a Element Svg \<Rightarrow> string list" where
  "all_ids this = concat (map (\<lambda>e. case elem_id e of None \<Rightarrow> [] | Some x \<Rightarrow> [x])
                              (concat (map subtree (elements this))))"

text \<open>What one element contributes to the result of \<open>findByType\<close>.\<close>

definition matches_at ::
  "('a Element \<Rightarrow> string \<Rightarrow> bool \<Rightarrow> 'a Element) \<Rightarrow> string \<Rightarrow> bool \<Rightarrow> 'a Element \<Rightarrow> 'a Element list" where
  "matches_at group_findByType type all elem =
     (if elem_type elem = type then [elem] else [])
     @ (if all \<and> elem_type elem = ''g'' then childs (group_findByType elem type all) else [])"

text \<open>
  The elements found inside an element: none unless it is a group, and for a group
  its \<^verbatim>\<open>childs\<close> in order, each followed at once by what is inside it. The search
  descends through \<^verbatim>\<open>g\<close> elements only.
\<close>

fun inside :: "'a Element \<Rightarrow> 'a Element list" where
  "inside (Element t i g cs) =
     (if t = ''g'' then concat (map (\<lambda>c. c # inside c) cs) else [])"

text \<open>
  Every element of a document, at the top level or inside recursively nested groups,
  in document order: each element before what is inside it, and all of that before
  the element's next sibling.
\<close>

definition document_order :: "'a Element Svg \<Rightarrow> 'a Element list" where
  "document_order this = concat (map (\<lambda>elem. elem # inside elem) (elements this))"

text \<open>A tree in which only groups have \<^verbatim>\<open>childs\<close>.\<close>

fun well_nested :: "'a Element \<Rightarrow> bool" where
  "well_nested (Element t i g cs) = ((t = ''g'' \<or> cs = []) \<and> list_all well_nested cs)"

section \<open>Construction entry points\<close>

text \<open>
  What the caller of an entry point gets: \<^verbatim>\<open>callback(err)\<close>,
  \<^verbatim>\<open>callback(null, svg)\<close>, or an exception that leaves the code of \<^verbatim>\<open>svg.js\<close>
  with the callback not invoked.
\<close>

datatype ('x, 'r) outcome = Callback_error 'x | Callback_result 'r | Exception 'x

text \<open>
  \<^verbatim>\<open>fromJson\<close> (lines 280-291). \<open>convertJson\<close> is \<^verbatim>\<open>SvgParser.convertJson\<close>, whose
  callback gets \<^verbatim>\<open>(err, elements)\<close>: \<open>Inl err\<close> when \<^verbatim>\<open>err\<close> is set.
\<close>

definition fromJson :: "('j \<Rightarrow> 'x + 'e list) \<Rightarrow> 'j \<Rightarrow> ('x, 'e Svg) outcome" where
  "fromJson convertJson json =
     (case convertJson json of
        Inl err \<Rightarrow> Callback_error err
      | Inr elements' \<Rightarrow> Callback_result (setElements elements' new_Svg))"

text \<open>
  \<^verbatim>\<open>fromJsonString\<close> (lines 274-278). \<open>JSON_parse\<close> is JavaScript's
  \<^verbatim>\<open>JSON.parse\<close>, which throws a \<^verbatim>\<open>SyntaxError\<close> (\<open>Inl\<close>) on a string that is not
  JSON; the call is not inside a \<^verbatim>\<open>try\<close>.
\<close>

definition fromJsonString ::
  "(string \<Rightarrow> 'x + 'j) \<Rightarrow> ('j \<Rightarrow> 'x + 'e list) \<Rightarrow> string \<Rightarrow> ('x, 'e Svg) outcome" where
  "fromJsonString JSON_parse convertJson string =
     (case JSON_parse string of
        Inl exn \<Rightarrow> Exception exn
      | Inr json \<Rightarrow> fromJson convertJson json)"

text \<open>
  \<^verbatim>\<open>fromJsonFile\<close> (lines 264-272). \<open>readFile\<close> is \<^verbatim>\<open>fs.readFile\<close>, whose callback
  gets \<^verbatim>\<open>(error, data)\<close>.
\<close>

definition fromJsonFile ::
  "('p \<Rightarrow> 'x + string) \<Rightarrow> (string \<Rightarrow> 'x + 'j) \<Rightarrow> ('j \<Rightarrow> 'x + 'e list) \<Rightarrow> 'p \<Rightarrow> ('x, 'e Svg) outcome" where
  "fromJsonFile readFile JSON_parse convertJson path =
     (case readFile path of
        Inl error \<Rightarrow> Callback_error error
      | Inr data \<Rightarrow> fromJsonString JSON_parse convertJson data)"

text \<open>
  \<^verbatim>\<open>fromXmlString\<close> (lines 244-261). \<open>parseString\<close> is the xml2js parser: \<open>Inr\<close> is
  the result it emits with its \<^verbatim>\<open>end\<close> event, \<open>Inl\<close> the error it raises on input
  that is not XML. The code listens to \<^verbatim>\<open>end\<close> only, so on an error the listener
  does not run and the callback is not invoked: the result is \<open>None\<close>. Whether the
  parser lets the error escape as an exception or swallows it is the library's
  matter and differs between its versions; \<open>None\<close> leaves it open.
\<close>

definition fromXmlString ::
  "(string \<Rightarrow> 'x + 'd) \<Rightarrow> ('d \<Rightarrow> 'x + 'e list) \<Rightarrow> string \<Rightarrow> ('x, 'e Svg) outcome option" where
  "fromXmlString parseString convertXml string =
     (case parseString string of
        Inl exn \<Rightarrow> None
      | Inr result \<Rightarrow>
          (case convertXml result of
             Inl err \<Rightarrow> Some (Callback_error err)
           | Inr elements' \<Rightarrow> Some (Callback_result (setElements elements' new_Svg))))"

text \<open>\<^verbatim>\<open>fromSvgDocument\<close> (lines 229-237).\<close>

definition fromSvgDocument ::
  "('p \<Rightarrow> 'x + string) \<Rightarrow> (string \<Rightarrow> 'x + 'd) \<Rightarrow> ('d \<Rightarrow> 'x + 'e list) \<Rightarrow> 'p
     \<Rightarrow> ('x, 'e Svg) outcome option" where
  "fromSvgDocument readFile parseString convertXml path =
     (case readFile path of
        Inl error \<Rightarrow> Some (Callback_error error)
      | Inr data \<Rightarrow> fromXmlString parseString convertXml data)"

section \<open>The transform pipeline\<close>

subsection \<open>Matrix objects\<close>

text \<open>
  Matrices are mutable objects that the caller, the pipeline and the elements share by
  reference, so they live in a store: \<open>cells\<close> gives the value at an address and
  \<open>next_addr\<close> is the first address not yet allocated.
\<close>

type_synonym addr = nat

record 'm heap =
  cells :: "addr \<Rightarrow> 'm"
  next_addr :: addr

text \<open>
  The collaborators of \<^verbatim>\<open>applyMatrix\<close>, none of them among the sources. Of an
  element: \<^verbatim>\<open>getBBox(callback)\<close> and \<^verbatim>\<open>applyMatrix(matrix, callback)\<close>; their
  callbacks take the result alone (\<^verbatim>\<open>function(bbox)\<close>, \<^verbatim>\<open>function(e)\<close>), so a
  collaborator that fails cannot say so through them: \<open>None\<close> stands for a call whose
  callback is never invoked. Of the matrix library: the value that
  \<^verbatim>\<open>Matrix.fromElement(bbox, elem)\<close> builds, the value of \<^verbatim>\<open>new Matrix()\<close> and the
  composition that \<^verbatim>\<open>add\<close> computes, over an opaque type of matrix values.
\<close>

record ('e, 'b, 'm) collaborators =
  getBBox :: "'e \<Rightarrow> 'b option"
  elem_applyMatrix :: "'e \<Rightarrow> 'm \<Rightarrow> 'e option"
  fromElement :: "'b \<Rightarrow> 'e \<Rightarrow> 'm"
  identity_matrix :: 'm
  compose_matrix :: "'m \<Rightarrow> 'm \<Rightarrow> 'm"

text \<open>
  Modelled from the spec: the matrix library \<^verbatim>\<open>libs/matrix/extends\<close> is not among
  the sources. The spec gives it composition (\<^verbatim>\<open>add\<close>), cloning and a factory from
  \<open>(bounding box, element)\<close>, calls the matrix state mutable and shared, and takes an
  absent base transform for the identity. \<^verbatim>\<open>svg.js\<close> itself uses \<^verbatim>\<open>add\<close> both for
  its effect on the receiver (line 149) and for its result (line 159): \<^verbatim>\<open>add\<close>
  overwrites the receiver with the composition and returns the receiver.
  \<^verbatim>\<open>new Matrix()\<close> allocates a new matrix with the value \<open>identity_matrix\<close>.
\<close>

definition new_Matrix :: "('e, 'b, 'm) collaborators \<Rightarrow> 'm heap \<Rightarrow> addr \<times> 'm heap" where
  "new_Matrix C h =
     (next_addr h, h\<lparr>cells := (cells h)(next_addr h := identity_matrix C), next_addr := Suc (next_addr h)\<rparr>)"

text \<open>
  Modelled from the spec: \<^verbatim>\<open>clone()\<close> of a matrix (not among the sources) allocates a
  new matrix with the value of the receiver.
\<close>

definition clone :: "addr \<Rightarrow> 'm heap \<Rightarrow> addr \<times> 'm heap" where
  "clone this h =
     (next_addr h, h\<lparr>cells := (cells h)(next_addr h := cells h this), next_addr := Suc (next_addr h)\<rparr>)"

text \<open>
  Modelled from the spec: \<^verbatim>\<open>add(mat)\<close> of a matrix (not among the sources) overwrites
  the receiver with the receiver composed with \<open>mat\<close>, leaves \<open>mat\<close> as it is and returns
  the receiver.
\<close>

definition add :: "('e, 'b, 'm) collaborators \<Rightarrow> addr \<Rightarrow> addr \<Rightarrow> 'm heap \<Rightarrow> addr \<times> 'm heap" where
  "add C this mat h =
     (this, h\<lparr>cells := (cells h)(this := compose_matrix C (cells h this) (cells h mat))\<rparr>)"

text \<open>
  Modelled from the spec: \<^verbatim>\<open>Matrix.fromElement(bbox, elem)\<close> (not among the sources)
  allocates a new matrix, derived from the bounding box and the element.
\<close>

definition Matrix_fromElement :: "('e, 'b, 'm) collaborators \<Rightarrow> 'b \<Rightarrow> 'e \<Rightarrow> 'm heap \<Rightarrow> addr \<times> 'm heap" where
  "Matrix_fromElement C bbox elem h =
     (next_addr h, h\<lparr>cells := (cells h)(next_addr h := fromElement C bbox elem), next_addr := Suc (next_addr h)\<rparr>)"

subsection \<open>\<^verbatim>\<open>Svg.prototype.applyMatrix\<close> (lines 142-168)\<close>

text \<open>
  The \<^verbatim>\<open>matrix\<close> argument: \<^verbatim>\<open>null\<close> (or absent), one Matrix, or an Array of
  Matrix objects.
\<close>

datatype matrix_arg = Null | Single addr | Array "addr list"

text \<open>
  Each element's chain has two callbacks. Until the first has run the chain is at
  \<open>AwaitBBox\<close>; between the two it is at \<open>AwaitApply matrix\<close>, the element holding the
  reference \<open>matrix\<close> it was given; after the second it is \<open>Completed\<close>.
\<close>

datatype stage = AwaitBBox | AwaitApply addr | Completed

datatype event = BBoxCallback nat | ApplyCallback nat

text \<open>
  The state shared by the callbacks: the store, the variable \<^verbatim>\<open>applyMatrix\<close>, the
  new document \<^verbatim>\<open>svg\<close>, the counter that \<^verbatim>\<open>async.each\<close> keeps of the iterations
  that have called \<^verbatim>\<open>c()\<close>, and the document the caller's \<^verbatim>\<open>callback\<close> was invoked
  with, if it was. \<open>composed\<close> records the receiver of every per-element \<^verbatim>\<open>add\<close>
  (line 159), in the order of the calls.
\<close>

record ('e, 'm) pipeline =
  heap :: "'m heap"
  applyMatrix_var :: addr
  stages :: "stage list"
  svg_var :: "'e Svg"
  completed :: nat
  delivered :: "'e Svg option"
  composed :: "addr list"

text \<open>
  Lines 143-156, up to the point where \<^verbatim>\<open>async.each\<close> has called the iterator, and
  so \<^verbatim>\<open>getBBox\<close>, for every element. \<^verbatim>\<open>async.each\<close> on an empty array invokes the
  final callback at once.
\<close>

definition start ::
  "('e, 'b, 'm) collaborators \<Rightarrow> 'e list \<Rightarrow> matrix_arg \<Rightarrow> 'm heap \<Rightarrow> ('e, 'm) pipeline" where
  "start C els matrix h =
     (let (applyMatrix, h) = new_Matrix C h;
          (applyMatrix, h) =
            (case matrix of
               Null \<Rightarrow> (applyMatrix, h)
             | Array mats \<Rightarrow> (applyMatrix, fold (\<lambda>mat h. snd (add C applyMatrix mat h)) mats h)
             | Single m \<Rightarrow> (m, h))
      in \<lparr>heap = h, applyMatrix_var = applyMatrix,
          stages = replicate (length els) AwaitBBox,
          svg_var = new_Svg, completed = 0,
          delivered = (if els = [] then Some new_Svg else None),
          composed = []\<rparr>)"

text \<open>
  Lines 157-160: the callback of \<^verbatim>\<open>getBBox\<close> for the element at index \<open>i\<close>. It
  clones the base matrix, composes the element's own matrix onto the clone and hands
  the result to \<^verbatim>\<open>elem.applyMatrix\<close>.
\<close>

definition bbox_callback ::
  "('e, 'b, 'm) collaborators \<Rightarrow> 'e list \<Rightarrow> nat \<Rightarrow> 'b \<Rightarrow> ('e, 'm) pipeline \<Rightarrow> ('e, 'm) pipeline" where
  "bbox_callback C els i bbox s =
     (let (applyCloneMatrix, h) = clone (applyMatrix_var s) (heap s);
          (from_element, h) = Matrix_fromElement C bbox (els ! i) h;
          (matrix, h) = add C applyCloneMatrix from_element h
      in s\<lparr>heap := h, stages := (stages s)[i := AwaitApply matrix],
           composed := composed s @ [applyCloneMatrix]\<rparr>)"

text \<open>
  Lines 160-163: the callback of \<^verbatim>\<open>elem.applyMatrix\<close> with the new element \<open>e\<close>:
  \<^verbatim>\<open>svg.addElement(e); c();\<close>. \<^verbatim>\<open>async.each\<close> counts the call of \<^verbatim>\<open>c\<close> and, once
  every iteration has called it, invokes the final callback (lines 165-167), which
  passes \<^verbatim>\<open>svg\<close> as the only argument of the caller's \<^verbatim>\<open>callback\<close>.
\<close>

definition apply_callback :: "'e list \<Rightarrow> nat \<Rightarrow> 'e \<Rightarrow> ('e, 'm) pipeline \<Rightarrow> ('e, 'm) pipeline" where
  "apply_callback els i e s =
     (let s = s\<lparr>svg_var := addElement e (svg_var s), stages := (stages s)[i := Completed],
                completed := completed s + 1\<rparr>
      in if completed s \<ge> length els then s\<lparr>delivered := Some (svg_var s)\<rparr> else s)"

text \<open>
  One turn of the event loop. A callback runs only for a chain that is waiting for it,
  and only if the collaborator invokes it: the element reads the matrix it holds when
  it produces the new element.
\<close>

fun step :: "('e, 'b, 'm) collaborators \<Rightarrow> 'e list \<Rightarrow> event \<Rightarrow> ('e, 'm) pipeline \<Rightarrow> ('e, 'm) pipeline" where
  "step C els (BBoxCallback i) s =
     (if i < length els \<and> stages s ! i = AwaitBBox then
        (case getBBox C (els ! i) of
           None \<Rightarrow> s
         | Some bbox \<Rightarrow> bbox_callback C els i bbox s)
      else s)"
| "step C els (ApplyCallback i) s =
     (if i < length els then
        (case stages s ! i of
           AwaitApply matrix \<Rightarrow>
             (case elem_applyMatrix C (els ! i) (cells (heap s) matrix) of
                None \<Rightarrow> s
              | Some e \<Rightarrow> apply_callback els i e s)
         | _ \<Rightarrow> s)
      else s)"

text \<open>
  \<^verbatim>\<open>applyMatrix\<close> on the document \<open>this\<close>, in the store \<open>h\<close>, with the callbacks
  running in the order \<open>schedule\<close> lists them.
\<close>

definition applyMatrix ::
  "('e, 'b, 'm) collaborators \<Rightarrow> 'e Svg \<Rightarrow> matrix_arg \<Rightarrow> 'm heap \<Rightarrow> event list \<Rightarrow> ('e, 'm) pipeline" where
  "applyMatrix C this matrix h schedule =
     fold (step C (elements this)) schedule (start C (elements this) matrix h)"

subsection \<open>What the pipeline computes, without the store\<close>

text \<open>
  The value of the base matrix that lines 145-154 leave in \<^verbatim>\<open>applyMatrix\<close>, read off
  the caller's store.
\<close>

definition base_value :: "('e, 'b, 'm) collaborators \<Rightarrow> matrix_arg \<Rightarrow> 'm heap \<Rightarrow> 'm" where
  "base_value C matrix h =
     (case matrix of
        Null \<Rightarrow> identity_matrix C
      | Array mats \<Rightarrow> fold (\<lambda>mat B. compose_matrix C B (cells h mat)) mats (identity_matrix C)
      | Single m \<Rightarrow> cells h m)"

text \<open>The references the caller passes point at matrices that exist in its store.\<close>

definition matrix_arg_ok :: "'m heap \<Rightarrow> matrix_arg \<Rightarrow> bool" where
  "matrix_arg_ok h matrix =
     (case matrix of
        Null \<Rightarrow> True
      | Single m \<Rightarrow> m < next_addr h
      | Array mats \<Rightarrow> list_all (\<lambda>m. m < next_addr h) mats)"

text \<open>
  The new element that the chain of \<open>elem\<close> ends with when the base matrix has the
  value \<open>B\<close>, if both collaborators call back.
\<close>

definition chain_output :: "('e, 'b, 'm) collaborators \<Rightarrow> 'm \<Rightarrow> 'e \<Rightarrow> 'e option" where
  "chain_output C B elem =
     (case getBBox C elem of
        None \<Rightarrow> None
      | Some bbox \<Rightarrow> elem_applyMatrix C elem (compose_matrix C B (fromElement C bbox elem)))"

text \<open>
  The progress of a run as a caller or an element can observe it: where each chain
  stands, the document under construction, the counter and the delivery.
\<close>

datatype phase = BBoxPending | ApplyPending | Finished

fun phase_of :: "stage \<Rightarrow> phase" where
  "phase_of AwaitBBox = BBoxPending"
| "phase_of (AwaitApply m) = ApplyPending"
| "phase_of Completed = Finished"

record 'e progress =
  phases :: "phase list"
  built :: "'e Svg"
  counted :: nat
  handed_over :: "'e Svg option"

definition observe :: "('e, 'm) pipeline \<Rightarrow> 'e progress" where
  "observe s = \<lparr>phases = map phase_of (stages s), built = svg_var s, counted = completed s,
                handed_over = delivered s\<rparr>"

fun progress_step :: "('e, 'b, 'm) collaborators \<Rightarrow> 'm \<Rightarrow> 'e list \<Rightarrow> event \<Rightarrow> 'e progress \<Rightarrow> 'e progress" where
  "progress_step C B els (BBoxCallback i) v =
     (if i < length els \<and> phases v ! i = BBoxPending then
        (case getBBox C (els ! i) of
           None \<Rightarrow> v
         | Some bbox \<Rightarrow> v\<lparr>phases := (phases v)[i := ApplyPending]\<rparr>)
      else v)"
| "progress_step C B els (ApplyCallback i) v =
     (if i < length els \<and> phases v ! i = ApplyPending then
        (case chain_output C B (els ! i) of
           None \<Rightarrow> v
         | Some e \<Rightarrow>
             (let v = v\<lparr>phases := (phases v)[i := Finished], built := addElement e (built v),
                        counted := counted v + 1\<rparr>
              in if counted v \<ge> length els then v\<lparr>handed_over := Some (built v)\<rparr> else v))
      else v)"

definition progress_start :: "'e list \<Rightarrow> 'e progress" where
  "progress_start els =
     \<lparr>phases = replicate (length els) BBoxPending, built = new_Svg, counted = 0,
      handed_over = (if els = [] then Some new_Svg else None)\<rparr>"

text \<open>
  The callbacks that ran to completion, in the order they ran: the indices of the
  \<open>ApplyCallback\<close> events of a schedule.
\<close>

fun completion_order :: "event list \<Rightarrow> nat list" where
  "completion_order [] = []"
| "completion_order (BBoxCallback i # evs) = completion_order evs"
| "completion_order (ApplyCallback i # evs) = i # completion_order evs"

text \<open>
  A schedule in which every chain runs to its end: from the chains \<open>waiting\<close> for
  their bounding box and those \<open>applying\<close>, each event is the callback its chain is
  waiting for, and no chain is left waiting at the end.
\<close>

fun runs_all :: "nat set \<Rightarrow> nat set \<Rightarrow> event list \<Rightarrow> bool" where
  "runs_all waiting applying [] = (waiting = {} \<and> applying = {})"
| "runs_all waiting applying (BBoxCallback i # evs) =
     (i \<in> waiting \<and> runs_all (waiting - {i}) (insert i applying) evs)"
| "runs_all waiting applying (ApplyCallback i # evs) =
     (i \<in> applying \<and> runs_all waiting (applying - {i}) evs)"

definition complete_schedule :: "nat \<Rightarrow> event list \<Rightarrow> bool" where
  "complete_schedule n schedule = runs_all {..<n} {} schedule"

text \<open>
  What holds of the store throughout a run whose base matrix has the value \<open>B\<close>: the
  base matrix exists and keeps its value, and a matrix that an element holds exists,
  is not the base matrix and has the value composed for that element.
\<close>

definition chain_inv :: "('e, 'b, 'm) collaborators \<Rightarrow> 'm \<Rightarrow> 'e list \<Rightarrow> ('e, 'm) pipeline \<Rightarrow> bool" where
  "chain_inv C B els s \<longleftrightarrow>
     applyMatrix_var s < next_addr (heap s)
     \<and> cells (heap s) (applyMatrix_var s) = B
     \<and> length (stages s) = length els
     \<and> (\<forall>i<length els. \<forall>m. stages s ! i = AwaitApply m \<longrightarrow>
           m < next_addr (heap s) \<and> m \<noteq> applyMatrix_var s
           \<and> (\<exists>bbox. getBBox C (els ! i) = Some bbox
                \<and> cells (heap s) m = compose_matrix C B (fromElement C bbox (els ! i))))"

definition progress_run :: "('e, 'b, 'm) collaborators \<Rightarrow> 'm \<Rightarrow> 'e list \<Rightarrow> event list \<Rightarrow> 'e progress" where
  "progress_run C B els schedule = fold (progress_step C B els) schedule (progress_start els)"

subsection \<open>An instance of the collaborators\<close>

text \<open>
  Modelled from the spec: the shapes and the matrix arithmetic are not among the
  sources. To run the pipeline on concrete documents, a small instance: a matrix is
  the 2D affine transform \<open>[a b c d e f]\<close> over the integers, composed by the matrix
  product; an element is a point with a pending transform, which \<open>fromElement\<close>
  yields, or a shape whose bounding box and transform are not supported.
\<close>

type_synonym affine = "int \<times> int \<times> int \<times> int \<times> int \<times> int"

definition affine_identity :: affine where
  "affine_identity = (1, 0, 0, 1, 0, 0)"

text \<open>
  Modelled from the spec: composition of 2D affine transforms, as the product of the
  matrices \<open>[a c e; b d f; 0 0 1]\<close>.
\<close>

fun affine_compose :: "affine \<Rightarrow> affine \<Rightarrow> affine" where
  "affine_compose (a1, b1, c1, d1, e1, f1) (a2, b2, c2, d2, e2, f2) =
     (a1 * a2 + c1 * b2, b1 * a2 + d1 * b2,
      a1 * c2 + c1 * d2, b1 * c2 + d1 * d2,
      a1 * e2 + c1 * f2 + e1, b1 * e2 + d1 * f2 + f1)"

text \<open>
  Modelled from the spec: a point element with its pending transform and coordinates,
  and an element of a kind that supports neither operation. The bounding box of a
  point is the point with no extent; a matrix maps a point to its image, with no
  transform pending.
\<close>

datatype shape = Point affine int int | Unsupported

fun shape_getBBox :: "shape \<Rightarrow> (int \<times> int \<times> int \<times> int) option" where
  "shape_getBBox (Point t x y) = Some (x, y, 0, 0)"
| "shape_getBBox Unsupported = None"

fun shape_applyMatrix :: "shape \<Rightarrow> affine \<Rightarrow> shape option" where
  "shape_applyMatrix (Point t x y) (a, b, c, d, e, f) =
     Some (Point affine_identity (a * x + c * y + e) (b * x + d * y + f))"
| "shape_applyMatrix Unsupported m = None"

fun shape_fromElement :: "(int \<times> int \<times> int \<times> int) \<Rightarrow> shape \<Rightarrow> affine" where
  "shape_fromElement bbox (Point t x y) = t"
| "shape_fromElement bbox Unsupported = affine_identity"

definition sample :: "(shape, int \<times> int \<times> int \<times> int, affine) collaborators" where
  "sample = \<lparr>getBBox = shape_getBBox, elem_applyMatrix = shape_applyMatrix,
             fromElement = shape_fromElement, identity_matrix = affine_identity,
             compose_matrix = affine_compose\<rparr>"

text \<open>A quarter turn, a shift along \<open>x\<close>, a store that holds them, and a document.\<close>

definition rot :: affine where "rot = (0, 1, -1, 0, 0, 0)"
definition shift :: affine where "shift = (1, 0, 0, 1, 5, 0)"
definition sample_heap :: "affine heap" where
  "sample_heap = \<lparr>cells = (\<lambda>a. affine_identity)(0 := rot, 1 := shift, 2 := affine_compose rot shift), next_addr = 3\<rparr>"
definition sample_doc :: "shape Svg" where
  "sample_doc = \<lparr>elements = [Point affine_identity 1 0, Point shift 0 1]\<rparr>"

text \<open>
  What holds of the store of a run started in a store with cells \<open>c0\<close> below \<open>n0\<close>:
  those cells are never written, the receivers of the per-element \<open>add\<close> are
  pairwise distinct addresses allocated during the run, and there is one receiver
  for each chain whose first callback has run.
\<close>

definition frame_inv :: "addr \<Rightarrow> (addr \<Rightarrow> 'm) \<Rightarrow> ('e, 'm) pipeline \<Rightarrow> bool" where
  "frame_inv n0 c0 s \<longleftrightarrow>
     n0 < next_addr (heap s)
     \<and> (\<forall>a<n0. cells (heap s) a = c0 a)
     \<and> distinct (composed s)
     \<and> (\<forall>a\<in>set (composed s). n0 < a \<and> a < next_addr (heap s))
     \<and> length (composed s) = length (filter (\<lambda>st. st \<noteq> AwaitBBox) (stages s))"

text \<open>
  What holds of the observable progress throughout a run: the counter is the number
  of finished chains and the length of the document under construction, only a chain
  whose two collaborators call back finishes, and the document has been handed over
  exactly if the counter has reached the number of elements.
\<close>

definition progress_inv :: "('e, 'b, 'm) collaborators \<Rightarrow> 'm \<Rightarrow> 'e list \<Rightarrow> 'e progress \<Rightarrow> bool" where
  "progress_inv C B els v \<longleftrightarrow>
     length (phases v) = length els
     \<and> counted v = length (filter (\<lambda>p. p = Finished) (phases v))
     \<and> length (elements (built v)) = counted v
     \<and> (\<forall>i<length els. phases v ! i = Finished \<longrightarrow> chain_output C B (els ! i) \<noteq> None)
     \<and> handed_over v = (if length els \<le> counted v then Some (built v) else None)"

subsection \<open>Collaborators that throw\<close>

text \<open>
  Lines 156-164 call the collaborators outside any \<^verbatim>\<open>try\<close>. A call of \<^verbatim>\<open>getBBox\<close>
  or of \<^verbatim>\<open>elem.applyMatrix\<close> then has three outcomes: it invokes its callback with a
  result (at once or in a later turn), it returns and never invokes it, or it throws.
  \<^verbatim>\<open>Matrix.fromElement\<close> returns a matrix or throws.
\<close>

datatype ('a, 'x) reply = Calls 'a | Silent | Throws 'x

record ('e, 'b, 'm, 'x) fallible =
  call_getBBox :: "'e \<Rightarrow> ('b, 'x) reply"
  call_fromElement :: "'b \<Rightarrow> 'e \<Rightarrow> 'x + 'm"
  call_applyMatrix :: "'e \<Rightarrow> 'm \<Rightarrow> ('e, 'x) reply"
  new_Matrix_value :: 'm
  add_value :: "'m \<Rightarrow> 'm \<Rightarrow> 'm"

text \<open>
  The same collaborators seen through their callbacks alone: a bounding box arrives
  only if \<^verbatim>\<open>getBBox\<close> calls back and the callback gets past \<^verbatim>\<open>Matrix.fromElement\<close>,
  a new element only if \<^verbatim>\<open>elem.applyMatrix\<close> calls back.
\<close>

definition answers :: "('e, 'b, 'm, 'x) fallible \<Rightarrow> ('e, 'b, 'm) collaborators" where
  "answers F =
     \<lparr>getBBox = (\<lambda>elem. case call_getBBox F elem of
                          Calls bbox \<Rightarrow> (case call_fromElement F bbox elem of
                                          Inl x \<Rightarrow> None
                                        | Inr m \<Rightarrow> Some bbox)
                        | Silent \<Rightarrow> None
                        | Throws x \<Rightarrow> None),
      elem_applyMatrix = (\<lambda>elem m. case call_applyMatrix F elem m of
                                     Calls e \<Rightarrow> Some e
                                   | Silent \<Rightarrow> None
                                   | Throws x \<Rightarrow> None),
      fromElement = (\<lambda>bbox elem. case call_fromElement F bbox elem of
                                   Inl x \<Rightarrow> new_Matrix_value F
                                 | Inr m \<Rightarrow> m),
      identity_matrix = new_Matrix_value F,
      compose_matrix = add_value F\<rparr>"

text \<open>
  The call of \<^verbatim>\<open>applyMatrix\<close> with such collaborators. Beside the state of the
  pipeline: how many elements the loop of \<^verbatim>\<open>async.each\<close> has called \<^verbatim>\<open>getBBox\<close> for,
  whether \<^verbatim>\<open>applyMatrix\<close> is still \<open>running\<close> (it has neither returned nor thrown), the
  exception that left \<^verbatim>\<open>applyMatrix\<close> to its caller, the exceptions that left a callback
  run in a later turn, and the chains whose \<^verbatim>\<open>getBBox\<close> callback ended in an exception.
\<close>

record ('e, 'm, 'x) call_state =
  inner :: "('e, 'm) pipeline"
  called :: nat
  running :: bool
  thrown :: "'x option"
  uncaught :: "'x list"
  dead :: "nat list"

text \<open>
  A turn of the run: the loop calls \<^verbatim>\<open>getBBox\<close> for the next element, a collaborator
  invokes a callback, or \<^verbatim>\<open>applyMatrix\<close> returns. A callback that a collaborator
  invokes before it returns runs while \<^verbatim>\<open>applyMatrix\<close> is still running.
\<close>

datatype turn = Call | Callback event | Return

text \<open>
  An exception reaches the code of \<^verbatim>\<open>svg.js\<close>, where nothing catches it. While
  \<^verbatim>\<open>applyMatrix\<close> is running, \<^verbatim>\<open>applyMatrix\<close> is on the call stack (a callback runs
  then only because a collaborator invoked it before returning, and the collaborator
  is taken not to catch what its callback throws): the exception leaves
  \<^verbatim>\<open>applyMatrix\<close> to its caller and ends the loop. In a later turn the exception
  leaves the callback, and \<^verbatim>\<open>applyMatrix\<close> has long returned.
\<close>

definition raise :: "'x \<Rightarrow> ('e, 'm, 'x) call_state \<Rightarrow> ('e, 'm, 'x) call_state" where
  "raise x s =
     (if running s then s\<lparr>running := False, thrown := Some x\<rparr>
      else s\<lparr>uncaught := uncaught s @ [x]\<rparr>)"

text \<open>
  Lines 156-163 turn by turn. \<open>Call\<close>: the loop calls \<^verbatim>\<open>elem.getBBox\<close> for the next
  element. \<open>Callback (BBoxCallback i)\<close>: lines 158-160 for an element whose \<^verbatim>\<open>getBBox\<close>
  has been called and calls back; the clone is made, then \<^verbatim>\<open>Matrix.fromElement\<close> and,
  after the composition, the call of \<^verbatim>\<open>elem.applyMatrix\<close> may throw. The matrix handed
  to \<^verbatim>\<open>elem.applyMatrix\<close> is the receiver of the \<^verbatim>\<open>add\<close> just made.
  \<open>Callback (ApplyCallback i)\<close>: lines 161-162, as in \<open>step\<close>.
\<close>

fun call_step ::
  "('e, 'b, 'm, 'x) fallible \<Rightarrow> 'e list \<Rightarrow> turn \<Rightarrow> ('e, 'm, 'x) call_state \<Rightarrow> ('e, 'm, 'x) call_state" where
  "call_step F els Call s =
     (if running s \<and> called s < length els then
        (let elem = els ! called s; s = s\<lparr>called := Suc (called s)\<rparr> in
         case call_getBBox F elem of
           Throws x \<Rightarrow> raise x s
         | Calls bbox \<Rightarrow> s
         | Silent \<Rightarrow> s)
      else s)"
| "call_step F els Return s =
     (if running s \<and> called s = length els then s\<lparr>running := False\<rparr> else s)"
| "call_step F els (Callback (BBoxCallback i)) s =
     (if i < called s \<and> i < length els \<and> i \<notin> set (dead s) \<and> stages (inner s) ! i = AwaitBBox then
        (case call_getBBox F (els ! i) of
           Calls bbox \<Rightarrow>
             (case call_fromElement F bbox (els ! i) of
                Inl x \<Rightarrow>
                  raise x (s\<lparr>inner := (inner s)\<lparr>heap := snd (clone (applyMatrix_var (inner s)) (heap (inner s)))\<rparr>,
                             dead := i # dead s\<rparr>)
              | Inr m \<Rightarrow>
                  (let p = bbox_callback (answers F) els i bbox (inner s);
                       matrix = last (composed p);
                       s = s\<lparr>inner := p\<rparr>
                   in case call_applyMatrix F (els ! i) (cells (heap p) matrix) of
                        Throws x \<Rightarrow> raise x (s\<lparr>dead := i # dead s\<rparr>)
                      | Calls e \<Rightarrow> s
                      | Silent \<Rightarrow> s))
         | Silent \<Rightarrow> s
         | Throws x \<Rightarrow> s)
      else s)"
| "call_step F els (Callback (ApplyCallback i)) s =
     (if i < called s \<and> i \<notin> set (dead s) then
        s\<lparr>inner := step (answers F) els (ApplyCallback i) (inner s)\<rparr>
      else s)"






section \<open>Serialisation preserves the sequence\<close>

lemma fold_push:
  "fold (\<lambda>element json. json\<lparr>json_elements := json_elements json @ [f element]\<rparr>) els acc
     = acc\<lparr>json_elements := json_elements acc @ map f els\<rparr>"
  by (induction els arbitrary: acc) simp_all

lemma fold_import:
  "fold (\<lambda>element xml. importXMLBuilder (f element) xml) els (XMLNode t as cs)
     = XMLNode t as (cs @ map f els)"
  by (induction els arbitrary: cs) (simp_all add: importXMLBuilder_def)

lemma fold_string_append:
  "fold (\<lambda>element string. string @ f element) els acc = acc @ concat (map f els)"
  by (induction els arbitrary: acc) simp_all

text \<open>
  Claim C7. \<open>toJSON\<close> maps element-wise over the owned sequence and keeps its order:
  after \<open>setElements [a, b, c]\<close> the \<open>elements\<close> of the JSON are the three elements'
  own JSON in that order, and in general the JSON of a document is the map of
  the elements' \<open>toJSON\<close> over the sequence, wrapped as the one field \<open>elements\<close>.
\<close>

theorem toJSON_preserves_order:
  "toJSON elem_toJSON (setElements [a, b, c] svg) None
     = \<lparr>json_elements = [elem_toJSON a False, elem_toJSON b False, elem_toJSON c False]\<rparr>
   \<and> toJSON elem_toJSON (setElements els svg) matrix
     = \<lparr>json_elements = map (\<lambda>element. elem_toJSON element (default_false matrix)) els\<rparr>"
  by (simp add: toJSON_def setElements_def fold_push default_false_def)

text \<open>
  Claim C8. \<open>toString\<close> with \<open>content = True\<close> is the serialisation of the wrapped
  document that \<open>toXml\<close> builds (an \<open>svg\<close> node with the two attributes and one child
  per element, in order); with \<open>content = False\<close> it is the concatenation of the
  serialisations of the elements' own fragments, in order, with nothing around them.
\<close>

theorem toString_wrapped_or_joined:
  "toString xml_toString elem_toXml svg True matrix = xml_toString (toXml elem_toXml svg matrix)
   \<and> toXml elem_toXml svg matrix
       = XMLNode ''svg'' [(''version'', ''1.1''), (''xmlns'', ''http://www.w3.org/2000/svg'')]
           (map (\<lambda>element. elem_toXml element (default_false matrix)) (elements svg))
   \<and> toString xml_toString elem_toXml svg False matrix
       = concat (map (\<lambda>element. xml_toString (elem_toXml element (default_false matrix))) (elements svg))"
  by (simp add: toString_def toXml_def create_def att_def fold_import fold_string_append)

section \<open>The lookups\<close>

lemma fold_addElement:
  "fold (\<lambda>child svg. addElement child svg) cs svg = svg\<lparr>elements := elements svg @ cs\<rparr>"
  by (induction cs arbitrary: svg) (simp_all add: addElement_def)

lemma findByType_fold:
  "fold (\<lambda>elem svg.
             let svg = (if elem_type elem = type then addElement elem svg else svg) in
             if all \<and> elem_type elem = ''g'' then
               let group = gf elem type all in
               fold (\<lambda>child svg. addElement child svg) (childs group) svg
             else svg) els acc
   = acc\<lparr>elements := elements acc @ concat (map (matches_at gf type all) els)\<rparr>"
  by (induction els arbitrary: acc) (simp_all add: fold_addElement addElement_def matches_at_def Let_def)

lemma concat_map_if_filter: "concat (map (\<lambda>e. if P e then [e] else []) xs) = filter P xs"
  by (induction xs) simp_all

lemma findByType_elements:
  "elements (findByType gf this type all) = concat (map (matches_at gf type all) (elements this))"
  unfolding findByType_def findByType_fold by (simp add: new_Svg_def)

text \<open>
  The group's search collects, from the group's \<^verbatim>\<open>childs\<close> down, every element of the
  type in document order.
\<close>

lemma Group_findByType_fold:
  "fold (\<lambda>elem acc.
                let acc = (if elem_type elem = type then acc @ [elem] else acc) in
                if all \<and> elem_type elem = ''g'' then acc @ childs (Group_findByType elem type all)
                else acc) cs acc0
   = acc0 @ concat (map (matches_at Group_findByType type all) cs)"
  by (induction cs arbitrary: acc0) (simp_all add: matches_at_def Let_def)

lemma Group_findByType_childs:
  "childs (Group_findByType e type all) = concat (map (matches_at Group_findByType type all) (childs e))"
  by (cases e) (simp add: Group_findByType_fold del: fold_simps)

lemma inside_group:
  "inside e = (if elem_type e = ''g'' then concat (map (\<lambda>c. c # inside c) (childs e)) else [])"
  by (cases e) simp

lemma matches_at_inside:
  "matches_at Group_findByType type True e = filter (\<lambda>x. elem_type x = type) (e # inside e)"
proof (induction e)
  case (Element t i g cs)
  have "concat (map (matches_at Group_findByType type True) cs)
          = filter (\<lambda>x. elem_type x = type) (concat (map (\<lambda>c. c # inside c) cs))"
    using Element.IH by (induction cs) simp_all
  then show ?case
    by (simp add: matches_at_def Group_findByType_childs del: Group_findByType.simps)
qed

lemma findByType_document_order:
  "elements (findByType Group_findByType this type True)
     = filter (\<lambda>elem. elem_type elem = type) (document_order this)"
proof -
  have "concat (map (matches_at Group_findByType type True) els)
          = filter (\<lambda>x. elem_type x = type) (concat (map (\<lambda>c. c # inside c) els))" for els
    by (induction els) (simp_all add: matches_at_inside)
  then show ?thesis
    by (simp add: findByType_elements document_order_def)
qed

text \<open>Where only groups have \<^verbatim>\<open>childs\<close>, an element and what is inside it are its whole subtree.\<close>

lemma well_nested_subtree:
  "well_nested e \<Longrightarrow> e # inside e = subtree e"
proof (induction e)
  case (Element t i g cs)
  have "concat (map (\<lambda>c. c # inside c) cs) = concat (map subtree cs)"
    using Element by (induction cs) simp_all
  with Element.prems show ?case
    by auto
qed

text \<open>
  Claim C2, as the code has it. Without \<open>all\<close> the result holds exactly the top-level
  elements of the type, in encounter order. With \<open>all\<close> each top-level element, in
  encounter order, contributes itself when its type matches and then, when it is a
  group, the \<open>childs\<close> of what the group's own \<open>findByType\<close> returns. With the group's
  search as the spec has it, the result is every element of the type in the whole
  document, top-level or inside recursively nested groups, each exactly as often as
  it occurs, in document order: the matches inside a group stand right after the
  group's place, before the top-level elements that follow the group.
\<close>

theorem findByType_encounter_order:
  "elements (findByType group_findByType this type False)
     = filter (\<lambda>elem. elem_type elem = type) (elements this)
   \<and> elements (findByType group_findByType this type True)
     = concat (map (\<lambda>elem. (if elem_type elem = type then [elem] else [])
                             @ (if elem_type elem = ''g'' then childs (group_findByType elem type True) else []))
                   (elements this))
   \<and> elements (findByType Group_findByType this type True)
     = filter (\<lambda>elem. elem_type elem = type) (document_order this)"
proof -
  have "elements (findByType group_findByType this type False)
     = filter (\<lambda>elem. elem_type elem = type) (elements this)"
    by (simp add: findByType_elements matches_at_def[abs_def] concat_map_if_filter)
  moreover have "elements (findByType group_findByType this type True)
     = concat (map (\<lambda>elem. (if elem_type elem = type then [elem] else [])
                             @ (if elem_type elem = ''g'' then childs (group_findByType elem type True) else []))
                   (elements this))"
    by (simp add: findByType_elements matches_at_def[abs_def])
  moreover note findByType_document_order [of this type]
  ultimately show ?thesis
    by (simp only: simp_thms)
qed

text \<open>
  Claim C2 as stated fails in its order alone: in the document \<open>[g [rect a], rect b]\<close>
  the recursive search for \<open>rect\<close> yields both rects, \<open>[rect a, rect b]\<close>. The only
  top-level match, \<open>rect b\<close>, comes after the match found inside the group, so the
  result does not begin with the top-level matches.
\<close>

theorem findByType_top_level_first_counterexample:
  "let doc = \<lparr>elements = [Element ''g'' (Some ''grp'') () [Element ''rect'' (Some ''a'') () []],
                            Element ''rect'' (Some ''b'') () []]\<rparr>;
       top_level = filter (\<lambda>elem. elem_type elem = ''rect'') (elements doc);
       found = elements (findByType Group_findByType doc ''rect'' True)
   in found = [Element ''rect'' (Some ''a'') () [], Element ''rect'' (Some ''b'') () []]
      \<and> top_level = [Element ''rect'' (Some ''b'') () []]
      \<and> take (length top_level) found \<noteq> top_level"
  by (simp add: findByType_def addElement_def new_Svg_def)

text \<open>
  The example of the spec, two top-level rects and then a group that holds one rect,
  has the group last: there both orders agree.
\<close>

lemma findByType_group_last:
  "let r1 = Element ''rect'' (Some ''r1'') () [];
       r2 = Element ''rect'' (Some ''r2'') () [];
       r3 = Element ''rect'' (Some ''r3'') () [];
       doc = \<lparr>elements = [r1, r2, Element ''g'' None () [r3]]\<rparr>
   in elements (findByType Group_findByType doc ''rect'' False) = [r1, r2]
      \<and> elements (findByType Group_findByType doc ''rect'' True) = [r1, r2, r3]"
  by (simp add: findByType_def addElement_def new_Svg_def)

text \<open>
  The search is decided by the last element that either carries the id or is a group.
\<close>

lemma findById_last_decides:
  "findById gf \<lparr>elements = els @ [e]\<rparr> x =
     (if elem_id e = Some x then Some e
      else if elem_type e = ''g'' then gf e x
      else findById gf \<lparr>elements = els\<rparr> x)"
  by (simp add: findById_def)

text \<open>
  Claim C1 at the document \<open>[rect a, g grp []]\<close>, whose ids are unique: the search for
  \<open>a\<close> finds the rect and then visits the group, which has no match, and the group's
  answer replaces the rect: the result is \<open>None\<close> although the element is there.
\<close>

theorem findById_result_overwritten:
  "let rect = Element ''rect'' (Some ''a'') () [];
       doc = \<lparr>elements = [rect, Element ''g'' (Some ''grp'') () []]\<rparr>
   in distinct (all_ids doc) \<and> rect \<in> set (elements doc) \<and> elem_id rect = Some ''a''
      \<and> findById Group_findById doc ''a'' = None"
  by (simp add: findById_def all_ids_def)

section \<open>The entry points and malformed input\<close>

text \<open>
  Claim C9 at a string that \<open>JSON_parse\<close> rejects: \<open>fromJsonString\<close> ends with the
  exception, not with a call of the callback, and so does \<open>fromJsonFile\<close> on a file
  with such content; \<open>fromJson\<close>, by contrast, passes the parser's error to the callback.
\<close>

theorem fromJsonString_throws:
  "JSON_parse string = Inl exn \<Longrightarrow>
     fromJsonString JSON_parse convertJson string = Exception exn
     \<and> (readFile path = Inr string \<longrightarrow>
          fromJsonFile readFile JSON_parse convertJson path = Exception exn)
     \<and> (convertJson json = Inl err \<longrightarrow> fromJson convertJson json = Callback_error err)"
  by (simp add: fromJsonString_def fromJsonFile_def fromJson_def)

theorem fromJsonString_throws_witness:
  "(let JSON_parse = (\<lambda>s. if s = ''{}'' then Inr [] else Inl ''SyntaxError'');
        convertJson = (\<lambda>json :: unit list. if json = [] then Inr json else Inl ''unknown element'');
        readFile = (\<lambda>p :: string. if p = ''doc.json'' then Inr ''{'' else Inl ''ENOENT'')
    in JSON_parse ''{'' = Inl ''SyntaxError''
       \<and> fromJsonString JSON_parse convertJson ''{'' = Exception ''SyntaxError''
       \<and> fromJsonFile readFile JSON_parse convertJson ''doc.json'' = Exception ''SyntaxError''
       \<and> fromJson convertJson [()] = Callback_error ''unknown element'')"
  using fromJsonString_throws
    [where JSON_parse = "\<lambda>s. if s = ''{}'' then Inr [] else Inl ''SyntaxError''"
       and string = "''{''" and exn = "''SyntaxError''"
       and convertJson = "\<lambda>json :: unit list. if json = [] then Inr json else Inl ''unknown element''"
       and readFile = "\<lambda>p :: string. if p = ''doc.json'' then Inr ''{'' else Inl ''ENOENT''"
       and path = "''doc.json''" and json = "[()]" and err = "''unknown element''"]
  by (simp add: Let_def)

text \<open>
  The XML entry points: a read error and an error of the element parser reach the
  callback; on an error of the XML parser the callback is not invoked.
\<close>

lemma fromSvgDocument_outcomes:
  "readFile path = Inl error \<Longrightarrow>
     fromSvgDocument readFile parseString convertXml path = Some (Callback_error error)"
  "readFile path = Inr data \<Longrightarrow> parseString data = Inl exn \<Longrightarrow>
     fromSvgDocument readFile parseString convertXml path = None"
  "parseString data = Inr result \<Longrightarrow> convertXml result = Inl err \<Longrightarrow>
     fromXmlString parseString convertXml data = Some (Callback_error err)"
  "parseString data = Inr result \<Longrightarrow> convertXml result = Inr els \<Longrightarrow>
     fromXmlString parseString convertXml data = Some (Callback_result \<lparr>elements = els\<rparr>)"
  by (simp_all add: fromSvgDocument_def fromXmlString_def setElements_def new_Svg_def)

section \<open>The store\<close>

lemma new_Matrix_simps:
  "fst (new_Matrix C h) = next_addr h"
  "next_addr (snd (new_Matrix C h)) = Suc (next_addr h)"
  "cells (snd (new_Matrix C h)) = (cells h)(next_addr h := identity_matrix C)"
  by (simp_all add: new_Matrix_def)

lemma fold_add_next:
  "next_addr (fold (\<lambda>mat h. snd (add C a mat h)) mats h) = next_addr h"
  by (induction mats arbitrary: h) (simp_all add: add_def)

lemma fold_add_frame:
  "b \<noteq> a \<Longrightarrow> cells (fold (\<lambda>mat h. snd (add C a mat h)) mats h) b = cells h b"
  by (induction mats arbitrary: h) (simp_all add: add_def)

lemma fold_add_value:
  "\<forall>m\<in>set mats. m \<noteq> a \<and> cells h m = v m \<Longrightarrow>
   cells (fold (\<lambda>mat h. snd (add C a mat h)) mats h) a
     = fold (\<lambda>mat B. compose_matrix C B (v mat)) mats (cells h a)"
proof (induction mats arbitrary: h)
  case Nil
  then show ?case by simp
next
  case (Cons m mats)
  let ?h = "snd (add C a m h)"
  have now: "cells ?h a = compose_matrix C (cells h a) (v m)"
    using Cons.prems by (simp add: add_def)
  have "\<forall>m\<in>set mats. m \<noteq> a \<and> cells ?h m = v m"
    using Cons.prems by (simp add: add_def)
  from Cons.IH [OF this] show ?case
    by (simp add: now)
qed

section \<open>The pipeline and its observable progress\<close>

lemma start_observe: "observe (start C els matrix h) = progress_start els"
  by (simp add: start_def observe_def progress_start_def Let_def split: prod.splits matrix_arg.splits)

lemma start_inv:
  assumes "matrix_arg_ok h matrix"
  shows "chain_inv C (base_value C matrix h) els (start C els matrix h)"
proof (cases matrix)
  case Null
  then show ?thesis
    by (simp add: chain_inv_def start_def base_value_def new_Matrix_def)
next
  case (Single m)
  with assms show ?thesis
    by (simp add: chain_inv_def start_def base_value_def new_Matrix_def matrix_arg_ok_def)
next
  case (Array mats)
  let ?a = "next_addr h"
  let ?h1 = "snd (new_Matrix C h)"
  have ok: "\<forall>m\<in>set mats. m \<noteq> ?a \<and> cells ?h1 m = cells h m"
    using assms Array by (auto simp: matrix_arg_ok_def list_all_iff new_Matrix_def)
  have "cells (fold (\<lambda>mat h. snd (add C ?a mat h)) mats ?h1) ?a
          = fold (\<lambda>mat B. compose_matrix C B (cells h mat)) mats (identity_matrix C)"
    using fold_add_value [OF ok, of C] by (simp add: new_Matrix_def)
  then show ?thesis
    using Array
    by (simp add: chain_inv_def start_def base_value_def new_Matrix_def fold_add_next)
qed

lemma bbox_callback_inv:
  assumes "chain_inv C B els s" and "i < length els" and "getBBox C (els ! i) = Some bbox"
  shows "chain_inv C B els (bbox_callback C els i bbox s)"
  using assms
  by (auto simp: chain_inv_def bbox_callback_def clone_def Matrix_fromElement_def add_def
                 nth_list_update less_Suc_eq)

lemma apply_callback_inv:
  assumes "chain_inv C B els s" and "i < length els"
  shows "chain_inv C B els (apply_callback els i e s)"
  using assms
  by (auto simp: chain_inv_def apply_callback_def Let_def nth_list_update)

lemma step_inv:
  assumes "chain_inv C B els s"
  shows "chain_inv C B els (step C els ev s)"
  using assms
  by (cases ev) (auto simp: bbox_callback_inv apply_callback_inv split: option.splits stage.splits)

lemma phase_of_simps:
  "phase_of st = BBoxPending \<longleftrightarrow> st = AwaitBBox"
  "phase_of st = ApplyPending \<longleftrightarrow> (\<exists>m. st = AwaitApply m)"
  "phase_of st = Finished \<longleftrightarrow> st = Completed"
  by (cases st; simp)+

lemma step_observe:
  assumes "chain_inv C B els s"
  shows "observe (step C els ev s) = progress_step C B els ev (observe s)"
proof (cases ev)
  case (BBoxCallback i)
  then show ?thesis
    using assms
    by (auto simp: observe_def chain_inv_def bbox_callback_def clone_def Matrix_fromElement_def
                   add_def map_update phase_of_simps split: option.splits)
next
  case (ApplyCallback i)
  show ?thesis
  proof (cases "i < length els \<and> (\<exists>m. stages s ! i = AwaitApply m)")
    case True
    then obtain m where m: "stages s ! i = AwaitApply m" and i: "i < length els"
      by blast
    from assms m i obtain bbox where
      bbox: "getBBox C (els ! i) = Some bbox"
        "cells (heap s) m = compose_matrix C B (fromElement C bbox (els ! i))"
      unfolding chain_inv_def by blast
    have len: "length (stages s) = length els"
      using assms by (simp add: chain_inv_def)
    show ?thesis
      using ApplyCallback m i bbox len
      by (simp add: observe_def chain_output_def apply_callback_def Let_def map_update
               split: option.splits)
  next
    case False
    then show ?thesis
      using ApplyCallback assms
      by (auto simp: observe_def chain_inv_def phase_of_simps split: stage.splits)
  qed
qed

lemma fold_step_observe:
  assumes "chain_inv C B els s"
  shows "chain_inv C B els (fold (step C els) schedule s)
       \<and> observe (fold (step C els) schedule s) = fold (progress_step C B els) schedule (observe s)"
  using assms
  by (induction schedule arbitrary: s) (simp_all add: step_inv step_observe)

lemma applyMatrix_observe:
  assumes "matrix_arg_ok h matrix"
  shows "observe (applyMatrix C this matrix h schedule)
           = progress_run C (base_value C matrix h) (elements this) schedule"
  using fold_step_observe [OF start_inv [OF assms, of C "elements this"], of schedule]
  by (simp add: applyMatrix_def progress_run_def start_observe)

section \<open>The store is only written at fresh addresses\<close>

lemma length_filter_update:
  assumes "i < length xs"
  shows "length (filter P (xs[i := v]))
           = length (filter P xs) + (if P v then 1 else 0) - (if P (xs ! i) then 1 else 0)"
  using assms
proof (induction xs arbitrary: i)
  case Nil
  then show ?case by simp
next
  case (Cons x xs)
  show ?case
  proof (cases i)
    case 0
    then show ?thesis by simp
  next
    case (Suc j)
    with Cons.prems have j: "j < length xs" by simp
    have "P (xs ! j) \<Longrightarrow> 0 < length (filter P xs)"
      using j by (auto simp: filter_empty_conv)
    with Cons.IH [OF j] Suc show ?thesis
      by auto
  qed
qed

lemma apply_callback_fields:
  "heap (apply_callback els i e s) = heap s"
  "applyMatrix_var (apply_callback els i e s) = applyMatrix_var s"
  "stages (apply_callback els i e s) = (stages s)[i := Completed]"
  "svg_var (apply_callback els i e s) = addElement e (svg_var s)"
  "completed (apply_callback els i e s) = Suc (completed s)"
  "composed (apply_callback els i e s) = composed s"
  "delivered (apply_callback els i e s)
     = (if length els \<le> Suc (completed s) then Some (addElement e (svg_var s)) else delivered s)"
  by (simp_all add: apply_callback_def Let_def)

lemma bbox_callback_fields:
  "next_addr (heap (bbox_callback C els i bbox s)) = Suc (Suc (next_addr (heap s)))"
  "cells (heap (bbox_callback C els i bbox s))
     = (cells (heap s))
         (next_addr (heap s) :=
            compose_matrix C (cells (heap s) (applyMatrix_var s)) (fromElement C bbox (els ! i)),
          Suc (next_addr (heap s)) := fromElement C bbox (els ! i))"
  "applyMatrix_var (bbox_callback C els i bbox s) = applyMatrix_var s"
  "stages (bbox_callback C els i bbox s) = (stages s)[i := AwaitApply (next_addr (heap s))]"
  "svg_var (bbox_callback C els i bbox s) = svg_var s"
  "completed (bbox_callback C els i bbox s) = completed s"
  "composed (bbox_callback C els i bbox s) = composed s @ [next_addr (heap s)]"
  "delivered (bbox_callback C els i bbox s) = delivered s"
  by (auto simp: bbox_callback_def clone_def Matrix_fromElement_def add_def)

lemma start_frame:
  "frame_inv (next_addr h) (cells h) (start C els matrix h)"
  by (cases matrix)
     (simp_all add: frame_inv_def start_def new_Matrix_def fold_add_next fold_add_frame)

lemma step_frame:
  assumes "frame_inv n0 c0 s" and "length (stages s) = length els"
  shows "frame_inv n0 c0 (step C els ev s)"
proof (cases ev)
  case (BBoxCallback i)
  show ?thesis
  proof (cases "i < length els \<and> stages s ! i = AwaitBBox")
    case True
    then have "length (filter (\<lambda>st. st \<noteq> AwaitBBox) ((stages s)[i := AwaitApply m]))
             = Suc (length (filter (\<lambda>st. st \<noteq> AwaitBBox) (stages s)))" for m
      using assms(2) by (simp add: length_filter_update)
    with True assms(1) BBoxCallback show ?thesis
      by (auto simp: frame_inv_def bbox_callback_fields split: option.splits)
  next
    case False
    with assms BBoxCallback show ?thesis by auto
  qed
next
  case (ApplyCallback i)
  show ?thesis
  proof (cases "i < length els \<and> (\<exists>m. stages s ! i = AwaitApply m)")
    case True
    then have "length (filter (\<lambda>st. st \<noteq> AwaitBBox) ((stages s)[i := Completed]))
             = length (filter (\<lambda>st. st \<noteq> AwaitBBox) (stages s))"
      using assms(2) by (auto simp: length_filter_update)
    with True assms(1) ApplyCallback show ?thesis
      by (auto simp: frame_inv_def apply_callback_fields split: option.splits)
  next
    case False
    with assms ApplyCallback show ?thesis by (auto split: stage.splits)
  qed
qed

lemma fold_step_frame:
  assumes "frame_inv n0 c0 s" and "chain_inv C B els s"
  shows "frame_inv n0 c0 (fold (step C els) schedule s)"
  using assms
proof (induction schedule arbitrary: s)
  case Nil
  then show ?case by simp
next
  case (Cons ev schedule)
  have "length (stages s) = length els"
    using Cons.prems(2) by (simp add: chain_inv_def)
  then have "frame_inv n0 c0 (step C els ev s)"
    using Cons.prems(1) by (rule step_frame [rotated])
  moreover have "chain_inv C B els (step C els ev s)"
    using Cons.prems(2) by (rule step_inv)
  ultimately show ?case
    using Cons.IH by simp
qed

lemma fold_step_applyMatrix_var:
  "applyMatrix_var (fold (step C els) schedule s) = applyMatrix_var s"
proof (induction schedule arbitrary: s)
  case Nil
  show ?case by simp
next
  case (Cons ev schedule)
  have "applyMatrix_var (step C els ev s) = applyMatrix_var s"
    by (cases ev) (simp_all add: bbox_callback_fields apply_callback_fields split: option.splits stage.splits)
  with Cons show ?case by simp
qed

lemma start_applyMatrix_var:
  assumes "matrix_arg_ok h matrix"
  shows "applyMatrix_var (start C els matrix h) \<le> next_addr h"
  using assms
  by (cases matrix) (simp_all add: start_def new_Matrix_def matrix_arg_ok_def)

lemma applyMatrix_invs:
  assumes "matrix_arg_ok h matrix"
  shows "chain_inv C (base_value C matrix h) (elements this) (applyMatrix C this matrix h schedule)"
    and "frame_inv (next_addr h) (cells h) (applyMatrix C this matrix h schedule)"
    and "applyMatrix_var (applyMatrix C this matrix h schedule) \<le> next_addr h"
proof -
  let ?els = "elements this"
  have inv: "chain_inv C (base_value C matrix h) ?els (start C ?els matrix h)"
    using assms by (rule start_inv)
  from fold_step_observe [OF inv, of schedule]
  show "chain_inv C (base_value C matrix h) ?els (applyMatrix C this matrix h schedule)"
    by (simp add: applyMatrix_def)
  from fold_step_frame [OF start_frame inv]
  show "frame_inv (next_addr h) (cells h) (applyMatrix C this matrix h schedule)"
    by (simp add: applyMatrix_def)
  show "applyMatrix_var (applyMatrix C this matrix h schedule) \<le> next_addr h"
    using start_applyMatrix_var [OF assms]
    by (simp add: applyMatrix_def fold_step_applyMatrix_var)
qed

text \<open>
  Claim C5. Whatever the order of the callbacks: no cell of the caller's store is
  written, so the matrix the caller passed is unchanged and the base matrix keeps its
  value; every per-element composition writes to an address of its own, allocated
  during the run by \<open>clone\<close> and different from the base matrix; there is one such
  clone for each element whose \<open>getBBox\<close> callback has run; and the matrix an element
  holds is the base value composed with that element's own matrix, untouched by the
  other chains.
\<close>

theorem applyMatrix_clones_base:
  assumes "matrix_arg_ok h matrix"
  shows "let s = applyMatrix C this matrix h schedule in
           (\<forall>a<next_addr h. cells (heap s) a = cells h a)
         \<and> cells (heap s) (applyMatrix_var s) = base_value C matrix h
         \<and> distinct (composed s)
         \<and> (\<forall>a\<in>set (composed s). next_addr h < a \<and> a \<noteq> applyMatrix_var s)
         \<and> length (composed s) = length (filter (\<lambda>st. st \<noteq> AwaitBBox) (stages s))
         \<and> (\<forall>i<length (elements this). \<forall>m. stages s ! i = AwaitApply m \<longrightarrow>
               (\<exists>bbox. getBBox C (elements this ! i) = Some bbox
                  \<and> cells (heap s) m
                      = compose_matrix C (base_value C matrix h) (fromElement C bbox (elements this ! i))))"
proof -
  let ?s = "applyMatrix C this matrix h schedule"
  note invs = applyMatrix_invs [OF assms, of C this schedule]
  have "\<forall>a\<in>set (composed ?s). next_addr h < a \<and> a \<noteq> applyMatrix_var ?s"
    using invs(2,3) by (auto simp: frame_inv_def)
  moreover have "\<forall>a<next_addr h. cells (heap ?s) a = cells h a"
    using invs(2) by (simp add: frame_inv_def)
  moreover have "distinct (composed ?s)"
    and "length (composed ?s) = length (filter (\<lambda>st. st \<noteq> AwaitBBox) (stages ?s))"
    using invs(2) by (simp_all add: frame_inv_def)
  moreover have "cells (heap ?s) (applyMatrix_var ?s) = base_value C matrix h"
    using invs(1) by (simp add: chain_inv_def)
  moreover have "\<forall>i<length (elements this). \<forall>m. stages ?s ! i = AwaitApply m \<longrightarrow>
               (\<exists>bbox. getBBox C (elements this ! i) = Some bbox
                  \<and> cells (heap ?s) m
                      = compose_matrix C (base_value C matrix h) (fromElement C bbox (elements this ! i)))"
    using invs(1) unfolding chain_inv_def by blast
  ultimately show ?thesis
    unfolding Let_def by blast
qed

text \<open>The equations that evaluate a run of the instance.\<close>

lemmas run_simps = applyMatrix_def start_def sample_doc_def sample_heap_def sample_def new_Matrix_def
     bbox_callback_fields apply_callback_fields Let_def rot_def shift_def affine_identity_def addElement_def new_Svg_def

theorem applyMatrix_clones_base_witness:
  "matrix_arg_ok sample_heap (Single 0)
   \<and> (let s = applyMatrix sample sample_doc (Single 0) sample_heap
                 [BBoxCallback 1, BBoxCallback 0, ApplyCallback 1]
      in cells (heap s) 0 = rot \<and> cells (heap s) 1 = shift \<and> applyMatrix_var s = 0
         \<and> composed s = [4, 6] \<and> stages s = [AwaitApply 6, Completed]
         \<and> cells (heap s) 6 = affine_compose rot affine_identity
         \<and> cells (heap s) 4 = affine_compose rot shift)"
  using applyMatrix_clones_base [of sample_heap "Single 0" sample sample_doc
          "[BBoxCallback 1, BBoxCallback 0, ApplyCallback 1]"]
  by (simp add: matrix_arg_ok_def run_simps)

text \<open>
  Claim C10. With the empty array nothing is composed onto the fresh matrix: the run
  is, state for state, the run with \<open>null\<close>; the base matrix holds the value of
  \<open>new Matrix()\<close>, the identity, to the end; and every element is transformed with
  that base value.
\<close>

theorem applyMatrix_empty_array_as_null:
  "applyMatrix C this (Array []) h schedule = applyMatrix C this Null h schedule
   \<and> cells (heap (applyMatrix C this (Array []) h schedule))
           (applyMatrix_var (applyMatrix C this (Array []) h schedule)) = identity_matrix C
   \<and> observe (applyMatrix C this (Array []) h schedule)
       = progress_run C (identity_matrix C) (elements this) schedule"
proof -
  have ok: "matrix_arg_ok h (Array [])"
    by (simp add: matrix_arg_ok_def)
  have "start C (elements this) (Array []) h = start C (elements this) Null h"
    by (simp add: start_def)
  then have "applyMatrix C this (Array []) h schedule = applyMatrix C this Null h schedule"
    by (simp add: applyMatrix_def)
  moreover have "cells (heap (applyMatrix C this (Array []) h schedule))
           (applyMatrix_var (applyMatrix C this (Array []) h schedule)) = identity_matrix C"
    using applyMatrix_invs(1) [OF ok, of C this schedule]
    by (simp add: chain_inv_def base_value_def)
  moreover have "observe (applyMatrix C this (Array []) h schedule)
       = progress_run C (identity_matrix C) (elements this) schedule"
    using applyMatrix_observe [OF ok, of C this schedule] by (simp add: base_value_def)
  ultimately show ?thesis by blast
qed

text \<open>
  Claim C6. When \<open>new Matrix()\<close> is neutral on the left of \<open>add\<close> and the matrix at
  \<open>m\<close> is the matrix at \<open>m1\<close> composed with the one at \<open>m2\<close>, a run with the array
  \<open>[m1, m2]\<close> and a run with the single matrix \<open>m\<close> show the same progress under the
  same schedule: the same document, element for element, and the same delivery.
  The order matters: in the instance above the quarter turn followed by the shift and
  the shift followed by the quarter turn give different documents.
\<close>

theorem applyMatrix_array_as_composed:
  assumes "\<forall>x. compose_matrix C (identity_matrix C) x = x"
    and "m1 < next_addr h" and "m2 < next_addr h" and "m < next_addr h"
    and "cells h m = compose_matrix C (cells h m1) (cells h m2)"
  shows "observe (applyMatrix C this (Array [m1, m2]) h schedule)
           = observe (applyMatrix C this (Single m) h schedule)
       \<and> observe (applyMatrix sample sample_doc (Array [0, 1]) sample_heap
                    [BBoxCallback 0, BBoxCallback 1, ApplyCallback 0, ApplyCallback 1])
           \<noteq> observe (applyMatrix sample sample_doc (Array [1, 0]) sample_heap
                    [BBoxCallback 0, BBoxCallback 1, ApplyCallback 0, ApplyCallback 1])"
proof -
  have "matrix_arg_ok h (Array [m1, m2])" and "matrix_arg_ok h (Single m)"
    using assms(2-4) by (simp_all add: matrix_arg_ok_def)
  moreover have "base_value C (Array [m1, m2]) h = base_value C (Single m) h"
    using assms(1,5) by (simp add: base_value_def)
  ultimately have "observe (applyMatrix C this (Array [m1, m2]) h schedule)
           = observe (applyMatrix C this (Single m) h schedule)"
    by (simp add: applyMatrix_observe)
  moreover have "delivered (applyMatrix sample sample_doc (Array [0, 1]) sample_heap
                    [BBoxCallback 0, BBoxCallback 1, ApplyCallback 0, ApplyCallback 1])
           \<noteq> delivered (applyMatrix sample sample_doc (Array [1, 0]) sample_heap
                    [BBoxCallback 0, BBoxCallback 1, ApplyCallback 0, ApplyCallback 1])"
    by (simp add: run_simps add_def)
  then have "observe (applyMatrix sample sample_doc (Array [0, 1]) sample_heap
                    [BBoxCallback 0, BBoxCallback 1, ApplyCallback 0, ApplyCallback 1])
           \<noteq> observe (applyMatrix sample sample_doc (Array [1, 0]) sample_heap
                    [BBoxCallback 0, BBoxCallback 1, ApplyCallback 0, ApplyCallback 1])"
    by (auto simp: observe_def)
  ultimately show ?thesis by blast
qed


lemma affine_identity_left: "affine_compose affine_identity x = x"
  by (cases x) (simp add: affine_identity_def)

theorem applyMatrix_array_as_composed_witness:
  "(\<forall>x. compose_matrix sample (identity_matrix sample) x = x)
   \<and> 0 < next_addr sample_heap \<and> 1 < next_addr sample_heap \<and> 2 < next_addr sample_heap
   \<and> cells sample_heap 2 = compose_matrix sample (cells sample_heap 0) (cells sample_heap 1)
   \<and> observe (applyMatrix sample sample_doc (Array [0, 1]) sample_heap
                [BBoxCallback 0, BBoxCallback 1, ApplyCallback 0, ApplyCallback 1])
       = observe (applyMatrix sample sample_doc (Single 2) sample_heap
                [BBoxCallback 0, BBoxCallback 1, ApplyCallback 0, ApplyCallback 1])
   \<and> delivered (applyMatrix sample sample_doc (Single 2) sample_heap
                [BBoxCallback 0, BBoxCallback 1, ApplyCallback 0, ApplyCallback 1])
       = Some \<lparr>elements = [Point affine_identity 0 6, Point affine_identity (- 1) 10]\<rparr>"
proof -
  have left: "\<forall>x. compose_matrix sample (identity_matrix sample) x = x"
    by (simp add: sample_def affine_identity_left)
  have addrs: "0 < next_addr sample_heap" "1 < next_addr sample_heap" "2 < next_addr sample_heap"
    by (simp_all add: sample_heap_def)
  have comp: "cells sample_heap 2 = compose_matrix sample (cells sample_heap 0) (cells sample_heap 1)"
    by (simp add: sample_heap_def sample_def)
  have "delivered (applyMatrix sample sample_doc (Single 2) sample_heap
                [BBoxCallback 0, BBoxCallback 1, ApplyCallback 0, ApplyCallback 1])
       = Some \<lparr>elements = [Point affine_identity 0 6, Point affine_identity (- 1) 10]\<rparr>"
    by (simp add: run_simps)
  with left addrs comp
    applyMatrix_array_as_composed [OF left addrs comp, of sample_doc
      "[BBoxCallback 0, BBoxCallback 1, ApplyCallback 0, ApplyCallback 1]"]
  show ?thesis by blast
qed

section \<open>Delivery of the new document\<close>

lemma progress_start_inv: "progress_inv C B els (progress_start els)"
  by (auto simp: progress_inv_def progress_start_def new_Svg_def)

lemma progress_step_inv:
  assumes "progress_inv C B els v"
  shows "progress_inv C B els (progress_step C B els ev v)"
proof (cases ev)
  case (BBoxCallback i)
  show ?thesis
  proof (cases "i < length els \<and> phases v ! i = BBoxPending")
    case True
    then have "length (filter (\<lambda>p. p = Finished) ((phases v)[i := ApplyPending]))
             = length (filter (\<lambda>p. p = Finished) (phases v))"
      using assms by (simp add: length_filter_update progress_inv_def)
    with True assms BBoxCallback show ?thesis
      by (auto simp: progress_inv_def nth_list_update split: option.splits)
  next
    case False
    with assms BBoxCallback show ?thesis by auto
  qed
next
  case (ApplyCallback i)
  show ?thesis
  proof (cases "i < length els \<and> phases v ! i = ApplyPending")
    case True
    then have "length (filter (\<lambda>p. p = Finished) ((phases v)[i := Finished]))
             = Suc (length (filter (\<lambda>p. p = Finished) (phases v)))"
      using assms by (simp add: length_filter_update progress_inv_def)
    with True assms ApplyCallback show ?thesis
      by (auto simp: progress_inv_def nth_list_update addElement_def Let_def split: option.splits)
  next
    case False
    with assms ApplyCallback show ?thesis by auto
  qed
qed

lemma progress_run_inv: "progress_inv C B els (progress_run C B els schedule)"
proof -
  have "progress_inv C B els v \<Longrightarrow> progress_inv C B els (fold (progress_step C B els) schedule v)" for v
    by (induction schedule arbitrary: v) (simp_all add: progress_step_inv)
  then show ?thesis
    by (simp add: progress_run_def progress_start_inv)
qed

lemma filter_all_length:
  assumes "length (filter P xs) = length xs" and "i < length xs"
  shows "P (xs ! i)"
proof -
  have "filter P xs = xs"
    using assms(1) by (metis length_filter_le filter_id_conv length_filter_less linorder_not_le order_refl)
  then show ?thesis
    using assms(2) by (metis filter_id_conv nth_mem)
qed

lemma failing_chain_blocks:
  assumes inv: "progress_inv C B els v"
    and bad: "list_ex (\<lambda>e. chain_output C B e = None) els"
  shows "handed_over v = None"
proof -
  from bad obtain i where i: "i < length els" "chain_output C B (els ! i) = None"
    by (auto simp: list_ex_iff in_set_conv_nth)
  have "phases v ! i \<noteq> Finished"
    using inv i by (auto simp: progress_inv_def)
  then have "length (filter (\<lambda>p. p = Finished) (phases v)) \<noteq> length (phases v)"
    using filter_all_length [of "\<lambda>p. p = Finished" "phases v" i] inv i
    by (auto simp: progress_inv_def)
  moreover have "length (filter (\<lambda>p. p = Finished) (phases v)) \<le> length (phases v)"
    by (rule length_filter_le)
  ultimately have "length (filter (\<lambda>p. p = Finished) (phases v)) < length (phases v)"
    by arith
  then have "counted v < length els"
    using inv by (simp add: progress_inv_def)
  then show ?thesis
    using inv by (simp add: progress_inv_def)
qed

lemma handed_over_is_whole:
  assumes inv: "progress_inv C B els v" and "handed_over v = Some d"
  shows "d = built v \<and> length (elements d) = length els"
proof -
  have "length (filter (\<lambda>p. p = Finished) (phases v)) \<le> length (phases v)"
    by (rule length_filter_le)
  with assms show ?thesis
    by (auto simp: progress_inv_def split: if_splits)
qed

text \<open>
  With collaborators that do not throw: if the chain of any one element does not call
  back, the caller's callback is never invoked, under every schedule; and a document
  that is delivered is the whole new document.
\<close>

lemma applyMatrix_all_or_nothing:
  assumes "matrix_arg_ok h matrix"
  shows "let s = applyMatrix C this matrix h schedule in
           (list_ex (\<lambda>e. chain_output C (base_value C matrix h) e = None) (elements this)
              \<longrightarrow> delivered s = None)
         \<and> (\<forall>d. delivered s = Some d
              \<longrightarrow> d = svg_var s \<and> length (elements d) = length (elements this))"
proof -
  let ?s = "applyMatrix C this matrix h schedule"
  let ?v = "progress_run C (base_value C matrix h) (elements this) schedule"
  have obs: "observe ?s = ?v"
    using assms by (rule applyMatrix_observe)
  have eq: "handed_over ?v = delivered ?s" "built ?v = svg_var ?s"
    unfolding obs [symmetric] by (simp_all add: observe_def)
  have inv: "progress_inv C (base_value C matrix h) (elements this) ?v"
    by (rule progress_run_inv)
  show ?thesis
    using failing_chain_blocks [OF inv] handed_over_is_whole [OF inv] eq
    unfolding Let_def by metis
qed


lemma runs_all_progress:
  assumes "runs_all W A schedule"
    and "length (phases v) = length els"
    and "W \<union> A \<subseteq> {..<length els}" and "W \<inter> A = {}"
    and "\<forall>i<length els. phases v ! i
           = (if i \<in> W then BBoxPending else if i \<in> A then ApplyPending else Finished)"
    and "counted v + card W + card A = length els"
    and "\<forall>e\<in>set els. chain_output C B e \<noteq> None"
    and "handed_over v = (if length els \<le> counted v then Some (built v) else None)"
  shows "let v' = fold (progress_step C B els) schedule v in
           map Some (elements (built v'))
             = map Some (elements (built v)) @ map (\<lambda>i. chain_output C B (els ! i)) (completion_order schedule)
         \<and> handed_over v' = Some (built v')
         \<and> mset (completion_order schedule) = mset_set A + mset_set W"
  using assms
proof (induction W A schedule arbitrary: v rule: runs_all.induct)
  case (1 W A)
  then show ?case by simp
next
  case (2 W A i evs)
  from "2.prems" have i: "i \<in> W" "i < length els" "i \<notin> A" and rest: "runs_all (W - {i}) (insert i A) evs"
    by auto
  have fin: "finite W" "finite A"
    using "2.prems"(3) by (auto intro: finite_subset)
  from i "2.prems"(7) obtain bbox where bbox: "getBBox C (els ! i) = Some bbox"
    by (fastforce simp: chain_output_def split: option.splits)
  let ?v = "v\<lparr>phases := (phases v)[i := ApplyPending]\<rparr>"
  have step: "progress_step C B els (BBoxCallback i) v = ?v"
    using i bbox "2.prems"(5) by simp
  have cards: "card (W - {i}) + card (insert i A) = card W + card A"
    using i fin by (simp add: card_Diff_singleton) (metis Suc_pred card_gt_0_iff empty_iff)
  have "let v' = fold (progress_step C B els) evs ?v in
           map Some (elements (built v'))
             = map Some (elements (built ?v)) @ map (\<lambda>i. chain_output C B (els ! i)) (completion_order evs)
         \<and> handed_over v' = Some (built v')
         \<and> mset (completion_order evs) = mset_set (insert i A) + mset_set (W - {i})"
  proof (rule "2.IH")
    show "runs_all (W - {i}) (insert i A) evs" by (rule rest)
    show "length (phases ?v) = length els" using "2.prems"(2) by simp
    show "W - {i} \<union> insert i A \<subseteq> {..<length els}" using "2.prems"(3) i by auto
    show "(W - {i}) \<inter> insert i A = {}" using "2.prems"(4) by auto
    show "\<forall>j<length els. phases ?v ! j
           = (if j \<in> W - {i} then BBoxPending else if j \<in> insert i A then ApplyPending else Finished)"
      using "2.prems"(2,5) i by (auto simp: nth_list_update)
    show "counted ?v + card (W - {i}) + card (insert i A) = length els"
      using "2.prems"(6) cards by simp
    show "\<forall>e\<in>set els. chain_output C B e \<noteq> None" by (rule "2.prems"(7))
    show "handed_over ?v = (if length els \<le> counted ?v then Some (built ?v) else None)"
      using "2.prems"(8) by simp
  qed
  moreover have "mset_set (insert i A) + mset_set (W - {i}) = mset_set A + mset_set W"
    using i fin by (simp add: mset_set.insert mset_set.remove)
  ultimately show ?case
    using step by (simp add: Let_def)
next
  case (3 W A i evs)
  from "3.prems" have i: "i \<in> A" "i < length els" "i \<notin> W" and rest: "runs_all W (A - {i}) evs"
    by auto
  have fin: "finite W" "finite A"
    using "3.prems"(3) by (auto intro: finite_subset)
  from i "3.prems"(7) obtain e where e: "chain_output C B (els ! i) = Some e"
    by fastforce
  have pos: "0 < card A"
    using i fin by (auto simp: card_gt_0_iff)
  let ?v1 = "v\<lparr>phases := (phases v)[i := Finished], built := addElement e (built v),
                counted := counted v + 1\<rparr>"
  let ?v = "if length els \<le> counted ?v1 then ?v1\<lparr>handed_over := Some (built ?v1)\<rparr> else ?v1"
  have step: "progress_step C B els (ApplyCallback i) v = ?v"
    using i e "3.prems"(5) by (simp add: Let_def)
  have none: "handed_over v = None"
    using "3.prems"(6,8) pos by simp
  have "let v' = fold (progress_step C B els) evs ?v in
           map Some (elements (built v'))
             = map Some (elements (built ?v)) @ map (\<lambda>i. chain_output C B (els ! i)) (completion_order evs)
         \<and> handed_over v' = Some (built v')
         \<and> mset (completion_order evs) = mset_set (A - {i}) + mset_set W"
  proof (rule "3.IH")
    show "runs_all W (A - {i}) evs" by (rule rest)
    show "length (phases ?v) = length els" using "3.prems"(2) by simp
    show "W \<union> (A - {i}) \<subseteq> {..<length els}" using "3.prems"(3) by auto
    show "W \<inter> (A - {i}) = {}" using "3.prems"(4) by auto
    show "\<forall>j<length els. phases ?v ! j
           = (if j \<in> W then BBoxPending else if j \<in> A - {i} then ApplyPending else Finished)"
      using "3.prems"(2,5) i by (auto simp: nth_list_update)
    show "counted ?v + card W + card (A - {i}) = length els"
      using "3.prems"(6) i fin pos by (simp add: card_Diff_singleton)
    show "\<forall>e\<in>set els. chain_output C B e \<noteq> None" by (rule "3.prems"(7))
    show "handed_over ?v = (if length els \<le> counted ?v then Some (built ?v) else None)"
      using none by simp
  qed
  moreover have "add_mset i (mset_set (A - {i}) + mset_set W) = mset_set A + mset_set W"
    using i fin by (simp add: mset_set.remove)
  moreover have "map Some (elements (built ?v)) = map Some (elements (built v)) @ [chain_output C B (els ! i)]"
    using e by (simp add: addElement_def)
  ultimately show ?case
    using step by (simp add: Let_def)
qed


lemma complete_schedule_progress:
  assumes "complete_schedule (length els) schedule"
    and "\<forall>e\<in>set els. chain_output C B e \<noteq> None"
  shows "handed_over (progress_run C B els schedule) = Some (built (progress_run C B els schedule))"
    and "map Some (elements (built (progress_run C B els schedule)))
           = map (\<lambda>i. chain_output C B (els ! i)) (completion_order schedule)"
    and "mset (completion_order schedule) = mset [0..<length els]"
proof -
  have "let v' = fold (progress_step C B els) schedule (progress_start els) in
           map Some (elements (built v'))
             = map Some (elements (built (progress_start els)))
               @ map (\<lambda>i. chain_output C B (els ! i)) (completion_order schedule)
         \<and> handed_over v' = Some (built v')
         \<and> mset (completion_order schedule) = mset_set {} + mset_set {..<length els}"
  proof (rule runs_all_progress)
    show "runs_all {..<length els} {} schedule"
      using assms(1) by (simp add: complete_schedule_def)
    show "\<forall>e\<in>set els. chain_output C B e \<noteq> None" by (rule assms(2))
  qed (auto simp: progress_start_def)
  then show "handed_over (progress_run C B els schedule) = Some (built (progress_run C B els schedule))"
    and "map Some (elements (built (progress_run C B els schedule)))
           = map (\<lambda>i. chain_output C B (els ! i)) (completion_order schedule)"
    and "mset (completion_order schedule) = mset [0..<length els]"
    by (simp_all add: Let_def progress_run_def progress_start_def new_Svg_def atLeast0LessThan [symmetric])
qed

text \<open>
  Claim C4. When every collaborator calls back and every chain's two callbacks run,
  in whatever interleaving, the caller's callback is invoked with a document whose
  elements are the outputs of the chains in the order in which the chains completed:
  that order is a permutation of the input indices, so the document holds exactly one
  output per input element, and its order is the schedule's, not the input's.
\<close>

theorem applyMatrix_completion_order:
  assumes "matrix_arg_ok h matrix"
    and "list_all (\<lambda>e. chain_output C (base_value C matrix h) e \<noteq> None) (elements this)"
    and "complete_schedule (length (elements this)) schedule"
  shows "\<exists>d. delivered (applyMatrix C this matrix h schedule) = Some d
           \<and> map Some (elements d)
               = map (\<lambda>i. chain_output C (base_value C matrix h) (elements this ! i))
                     (completion_order schedule)
           \<and> mset (completion_order schedule) = mset [0..<length (elements this)]
           \<and> mset (map Some (elements d))
               = mset (map (chain_output C (base_value C matrix h)) (elements this))"
proof -
  let ?B = "base_value C matrix h"
  let ?els = "elements this"
  let ?s = "applyMatrix C this matrix h schedule"
  let ?v = "progress_run C ?B ?els schedule"
  have all: "\<forall>e\<in>set ?els. chain_output C ?B e \<noteq> None"
    using assms(2) by (simp add: list_all_iff)
  note run = complete_schedule_progress [OF assms(3) all]
  have obs: "observe ?s = ?v"
    using assms(1) by (rule applyMatrix_observe)
  have eq: "handed_over ?v = delivered ?s" "built ?v = svg_var ?s"
    unfolding obs [symmetric] by (simp_all add: observe_def)
  have d: "delivered ?s = Some (svg_var ?s)"
    using run(1) eq by simp
  have order: "map Some (elements (svg_var ?s))
                 = map (\<lambda>i. chain_output C ?B (?els ! i)) (completion_order schedule)"
    using run(2) eq by simp
  have "mset (map Some (elements (svg_var ?s)))
          = image_mset (\<lambda>i. chain_output C ?B (?els ! i)) (mset (completion_order schedule))"
    by (simp add: order)
  also have "\<dots> = mset (map (\<lambda>i. chain_output C ?B (?els ! i)) [0..<length ?els])"
    by (simp add: run(3))
  also have "map (\<lambda>i. chain_output C ?B (?els ! i)) [0..<length ?els]
               = map (chain_output C ?B) (map (\<lambda>i. ?els ! i) [0..<length ?els])"
    by simp
  also have "\<dots> = map (chain_output C ?B) ?els"
    by (simp only: map_nth)
  finally have "mset (map Some (elements (svg_var ?s))) = mset (map (chain_output C ?B) ?els)" .
  with d order run(3) show ?thesis
    by blast
qed

theorem applyMatrix_completion_order_witness:
  "matrix_arg_ok sample_heap Null
   \<and> list_all (\<lambda>e. chain_output sample (base_value sample Null sample_heap) e \<noteq> None)
        (elements sample_doc)
   \<and> complete_schedule (length (elements sample_doc))
        [BBoxCallback 1, BBoxCallback 0, ApplyCallback 1, ApplyCallback 0]
   \<and> completion_order [BBoxCallback 1, BBoxCallback 0, ApplyCallback 1, ApplyCallback 0] = [1, 0]
   \<and> map (chain_output sample (base_value sample Null sample_heap)) (elements sample_doc)
       = [Some (Point affine_identity 1 0), Some (Point affine_identity 5 1)]
   \<and> (\<exists>d. delivered (applyMatrix sample sample_doc Null sample_heap
                [BBoxCallback 1, BBoxCallback 0, ApplyCallback 1, ApplyCallback 0]) = Some d
          \<and> elements d = [Point affine_identity 5 1, Point affine_identity 1 0])"
proof -
  let ?schedule = "[BBoxCallback 1, BBoxCallback 0, ApplyCallback 1, ApplyCallback 0]"
  have ok: "matrix_arg_ok sample_heap Null"
    by (simp add: matrix_arg_ok_def)
  have outs: "map (chain_output sample (base_value sample Null sample_heap)) (elements sample_doc)
       = [Some (Point affine_identity 1 0), Some (Point affine_identity 5 1)]"
    by (simp add: chain_output_def base_value_def sample_def sample_doc_def shift_def affine_identity_def)
  then have good: "list_all (\<lambda>e. chain_output sample (base_value sample Null sample_heap) e \<noteq> None)
        (elements sample_doc)"
    by (simp add: sample_doc_def)
  have sched: "complete_schedule (length (elements sample_doc)) ?schedule"
    by (auto simp: complete_schedule_def sample_doc_def)
  from applyMatrix_completion_order [OF ok good sched]
  obtain d where d: "delivered (applyMatrix sample sample_doc Null sample_heap ?schedule) = Some d"
    and "map Some (elements d)
               = map (\<lambda>i. chain_output sample (base_value sample Null sample_heap) (elements sample_doc ! i))
                     (completion_order ?schedule)"
    by blast
  then have "map Some (elements d) = map Some [Point affine_identity 5 1, Point affine_identity 1 0]"
    using outs by (simp add: sample_doc_def)
  then have "elements d = [Point affine_identity 5 1, Point affine_identity 1 0]"
    by (simp only: inj_map_eq_map [OF inj_Some])
  with ok good sched outs d show ?thesis
    by simp
qed

section \<open>Failure of a collaborator\<close>










text \<open>
  A collaborator that throws while \<open>applyMatrix\<close> is running makes \<open>applyMatrix\<close> throw:
  \<open>getBBox\<close> in the loop, \<open>Matrix.fromElement\<close> in a callback invoked before \<open>getBBox\<close>
  returns.
\<close>

lemma exception_while_running:
  "running s \<Longrightarrow> called s < length els \<Longrightarrow> call_getBBox F (els ! called s) = Throws x \<Longrightarrow>
     thrown (call_step F els Call s) = Some x \<and> \<not> running (call_step F els Call s)"
  "running s \<Longrightarrow> i < called s \<Longrightarrow> i < length els \<Longrightarrow> i \<notin> set (dead s) \<Longrightarrow>
   stages (inner s) ! i = AwaitBBox \<Longrightarrow> call_getBBox F (els ! i) = Calls bbox \<Longrightarrow>
   call_fromElement F bbox (els ! i) = Inl x \<Longrightarrow>
     thrown (call_step F els (Callback (BBoxCallback i)) s) = Some x
     \<and> \<not> running (call_step F els (Callback (BBoxCallback i)) s)"
  by (simp_all add: raise_def Let_def)






end
